theory Spec2Isabelle
  imports Complex_Main "HOL-Library.Word"
begin

unbundle bit_operations_syntax

section \<open>The RGB mood lamp (non-blocking sketch): data model\<close>

text \<open>
  The sketch targets AVR boards (ATtiny2313, Arduino Uno): \<open>int\<close> is 16 bits wide,
  \<open>uint8_t\<close>, \<open>uint16_t\<close> and \<open>uint32_t\<close> are \<open>8 word\<close>, \<open>16 word\<close> and
  \<open>32 word\<close>. The preprocessor constants keep their names.
\<close>

definition MIN_RGB_VALUE :: int where
  "MIN_RGB_VALUE = 10"

definition MAX_RGB_VALUE :: int where
  "MAX_RGB_VALUE = 255"

definition TRANSITION_DELAY :: "32 word" where
  "TRANSITION_DELAY = 100"

definition WAIT_DELAY :: "32 word" where
  "WAIT_DELAY = 500"

text \<open>\<open>typedef struct { uint8_t x, y, z; } coord;\<close>\<close>

record coord =
  x :: "8 word"
  y :: "8 word"
  z :: "8 word"

text \<open>The table \<open>vertex[]\<close> of the eight cube corners, axes 0 or 1.\<close>

definition vertex :: "coord list" where
  "vertex =
    [\<lparr>x = 0, y = 0, z = 0\<rparr>,
     \<lparr>x = 0, y = 0, z = 1\<rparr>,
     \<lparr>x = 0, y = 1, z = 1\<rparr>,
     \<lparr>x = 0, y = 1, z = 0\<rparr>,
     \<lparr>x = 1, y = 1, z = 0\<rparr>,
     \<lparr>x = 1, y = 0, z = 0\<rparr>,
     \<lparr>x = 1, y = 0, z = 1\<rparr>,
     \<lparr>x = 1, y = 1, z = 1\<rparr>]"

definition MAX_VERTICES :: nat where
  "MAX_VERTICES = length vertex"

text \<open>
  The fixed path of the build with \<open>RANDOM_DISPLAY = 0\<close>: vertex numbers, two per byte.
\<close>

definition path :: "8 word list" where
  "path =
    [0x01, 0x23, 0x45, 0x67, 0x21, 0x65, 0x00,
     0x26, 0x41, 0x35, 0x71, 0x25, 0x36, 0x14, 0x70]"

definition MAX_PATH_SIZE :: nat where
  "MAX_PATH_SIZE = length path"

text \<open>
  A C array read outside its bounds has no defined value; the model reports it.
\<close>

datatype fault = VertexOutOfBounds nat | PathOutOfBounds nat

definition vertex_at :: "8 word \<Rightarrow> fault + coord" where
  "vertex_at k =
     (if unat k < MAX_VERTICES then Inr (vertex ! unat k)
      else Inl (VertexOutOfBounds (unat k)))"

definition path_at :: "16 word \<Rightarrow> fault + 8 word" where
  "path_at k =
     (if unat k < MAX_PATH_SIZE then Inr (path ! unat k)
      else Inl (PathOutOfBounds (unat k)))"

text \<open>
  The expression \<open>(vertex[k].x ? MAX_RGB_VALUE : MIN_RGB_VALUE)\<close> on each axis, as
  \<open>setup\<close> and the re-anchoring in \<open>loop\<close> write it into \<open>v\<close>.
\<close>

definition materialize :: "coord \<Rightarrow> coord" where
  "materialize c =
     \<lparr>x = (if x c \<noteq> 0 then word_of_int MAX_RGB_VALUE else word_of_int MIN_RGB_VALUE),
      y = (if y c \<noteq> 0 then word_of_int MAX_RGB_VALUE else word_of_int MIN_RGB_VALUE),
      z = (if z c \<noteq> 0 then word_of_int MAX_RGB_VALUE else word_of_int MIN_RGB_VALUE)\<rparr>"

text \<open>The two state enumerations: the one of \<open>traverse\<close> and the one of \<open>loop\<close>.\<close>

datatype t_state = S_INIT | S_LOOP | S_WAITTRANS | S_WAITDELAY

datatype l_state = L_LOOP | L_ANIMATE

text \<open>
  The whole mutable state of the sketch: the global \<open>v\<close>, the static variables of
  \<open>traverse\<close> (\<open>state\<close>, \<open>timeStart\<close>, \<open>timeDelay\<close>, \<open>idx\<close>, \<open>dx\<close>, \<open>dy\<close>, \<open>dz\<close>),
  the static variables of \<open>loop\<close> (\<open>lstate\<close> for its own \<open>state\<close>, \<open>v1\<close>, \<open>v2\<close>, and
  the path cursor \<open>i\<close>), and \<open>sink\<close>, the log of what was written to the three PWM
  pins: one entry per group of three \<open>analogWrite\<close> calls (red, green, blue).
\<close>

record lamp =
  v :: coord
  state :: t_state
  timeStart :: "32 word"
  timeDelay :: "32 word"
  idx :: "16 word"
  dx :: "16 word"
  dy :: "16 word"
  dz :: "16 word"
  lstate :: l_state
  v1 :: "8 word"
  v2 :: "8 word"
  i :: "16 word"
  sink :: "coord list"

text \<open>The state after \<open>setup\<close>: statics zero-initialised, \<open>v\<close> at vertex 0.\<close>

definition setup_lamp :: lamp where
  "setup_lamp =
     \<lparr>v = materialize (vertex ! 0), state = S_INIT, timeStart = 0, timeDelay = 0,
      idx = 0, dx = 0, dy = 0, dz = 0, lstate = L_LOOP, v1 = 0, v2 = 0, i = 0,
      sink = []\<rparr>"

section \<open>The random vertex selector\<close>

text \<open>
  \<open>MD_Random\<close>: the loop \<open>while (n > 0) { r = r + (n % 10); n = n/10; }\<close> on a
  \<open>uint32_t n\<close> and a \<open>uint16_t r\<close>, then \<open>r % nMax\<close>. The reading of \<open>millis()\<close> is
  the argument \<open>now\<close>.
\<close>

function MD_Random_loop :: "32 word \<Rightarrow> 16 word \<Rightarrow> 16 word" where
  "MD_Random_loop n r =
     (if n > 0 then MD_Random_loop (n div 10) (r + ucast (n mod 10)) else r)"
  by pat_completeness auto
termination
proof (relation "measure (\<lambda>(n, r). unat n)")
  show "wf (measure (\<lambda>(n :: 32 word, r :: 16 word). unat n))"
    by simp
next
  fix n :: "32 word" and r :: "16 word"
  assume "0 < n"
  then have "0 < unat n"
    by (simp add: word_less_nat_alt)
  then have "unat n div 10 < unat n"
    by simp
  then show "((n div 10, r + ucast (n mod 10)), (n, r)) \<in> measure (\<lambda>(n, r). unat n)"
    by (simp add: unat_div)
qed

definition MD_Random :: "32 word \<Rightarrow> 16 word \<Rightarrow> 16 word" where
  "MD_Random now nMax = MD_Random_loop now 0 mod nMax"

text \<open>The sum of the decimal digits of a number, for comparison.\<close>

fun digit_sum :: "nat \<Rightarrow> nat" where
  "digit_sum n = (if n = 0 then 0 else n mod 10 + digit_sum (n div 10))"

declare digit_sum.simps [simp del]

section \<open>The traversal engine\<close>

text \<open>
  \<open>v.x += dx\<close> with \<open>uint8_t v.x\<close> and \<open>int16_t dx\<close>: the sum is formed in 16 bits and
  stored back into 8.
\<close>

definition add_delta :: "8 word \<Rightarrow> 16 word \<Rightarrow> 8 word" where
  "add_delta c d = ucast ((ucast c :: 16 word) + d)"

text \<open>
  One call of \<open>traverse(_dx, _dy, _dz)\<close>; \<open>now\<close> is what \<open>millis()\<close> returns during
  the call (each path through the function reads it at most once). The result is the
  returned flag and the state left behind.
\<close>

definition traverse :: "16 word \<Rightarrow> 16 word \<Rightarrow> 16 word \<Rightarrow> 32 word \<Rightarrow> lamp \<Rightarrow> bool \<times> lamp" where
  "traverse dx' dy' dz' now s =
     (if state s = S_INIT \<and> dx' = 0 \<and> dy' = 0 \<and> dz' = 0 then (True, s)
      else
        let s' =
          (case state s of
             S_INIT \<Rightarrow> s\<lparr>idx := 0, dx := dx', dy := dy', dz := dz', state := S_LOOP\<rparr>
           | S_LOOP \<Rightarrow>
               if uint (idx s) \<ge> MAX_RGB_VALUE - MIN_RGB_VALUE
               then s\<lparr>timeStart := now, timeDelay := WAIT_DELAY, state := S_WAITDELAY\<rparr>
               else s\<lparr>sink := sink s @ [v s],
                      idx := idx s + 1,
                      v := \<lparr>x = add_delta (x (v s)) (dx s),
                            y = add_delta (y (v s)) (dy s),
                            z = add_delta (z (v s)) (dz s)\<rparr>,
                      timeStart := now, timeDelay := TRANSITION_DELAY,
                      state := S_WAITTRANS\<rparr>
           | S_WAITTRANS \<Rightarrow>
               if now - timeStart s \<ge> timeDelay s then s\<lparr>state := S_LOOP\<rparr> else s
           | S_WAITDELAY \<Rightarrow>
               if now - timeStart s \<ge> timeDelay s then s\<lparr>state := S_INIT\<rparr> else s)
        in (state s' = S_INIT, s'))"

text \<open>
  The three arguments that \<open>loop\<close> passes: \<open>vertex[v2].x - vertex[v1].x\<close> and so on,
  a difference of two \<open>uint8_t\<close> formed in \<open>int\<close> and passed as \<open>int16_t\<close>.
\<close>

definition delta :: "8 word \<Rightarrow> 8 word \<Rightarrow> 16 word" where
  "delta b a = ucast b - ucast a"

text \<open>
  The case \<open>S_ANIMATE\<close> of \<open>loop\<close> calls \<open>traverse\<close> with the same three arguments on
  every pass until it returns true. \<open>drive\<close> does so along the list of the clock
  readings of the passes; the flag tells whether completion was reported before the
  list ran out.
\<close>

fun drive :: "16 word \<Rightarrow> 16 word \<Rightarrow> 16 word \<Rightarrow> 32 word list \<Rightarrow> lamp \<Rightarrow> bool \<times> lamp" where
  "drive dx' dy' dz' [] s = (False, s)"
| "drive dx' dy' dz' (t # ts) s =
     (case traverse dx' dy' dz' t s of
        (True, s') \<Rightarrow> (True, s')
      | (False, s') \<Rightarrow> drive dx' dy' dz' ts s')"

text \<open>Every state the lamp is in during such a session, the first and the last included.\<close>

fun visited :: "16 word \<Rightarrow> 16 word \<Rightarrow> 16 word \<Rightarrow> 32 word list \<Rightarrow> lamp \<Rightarrow> lamp list" where
  "visited dx' dy' dz' [] s = [s]"
| "visited dx' dy' dz' (t # ts) s =
     s # (case traverse dx' dy' dz' t s of
            (True, s') \<Rightarrow> [s']
          | (False, s') \<Rightarrow> visited dx' dy' dz' ts s')"

text \<open>A clock that is read every \<open>step\<close> milliseconds, \<open>n\<close> times, from 0.\<close>

definition ticks :: "nat \<Rightarrow> nat \<Rightarrow> 32 word list" where
  "ticks step n = map (\<lambda>k. of_nat (k * step)) [0..<n]"

text \<open>
  A point \<open>c\<close> lies on the straight segment from \<open>a\<close> to \<open>b\<close>: \<open>c = a + t (b - a)\<close> for
  some \<open>t\<close> between 0 and 1, the axes read as numbers.
\<close>

definition on_segment :: "coord \<Rightarrow> coord \<Rightarrow> coord \<Rightarrow> bool" where
  "on_segment a b c \<longleftrightarrow>
     (\<exists>t :: real. 0 \<le> t \<and> t \<le> 1 \<and>
        real (unat (x c)) = real (unat (x a)) + t * (real (unat (x b)) - real (unat (x a))) \<and>
        real (unat (y c)) = real (unat (y a)) + t * (real (unat (y b)) - real (unat (y a))) \<and>
        real (unat (z c)) = real (unat (z a)) + t * (real (unat (z b)) - real (unat (z a))))"

section \<open>The fixed-path vertex selector\<close>

text \<open>
  The case \<open>S_LOOP\<close> of \<open>loop\<close> in the build with \<open>RANDOM_DISPLAY = 0\<close>, in its three
  parts. First \<open>v1 = v2\<close> and the cursor: \<open>if (i++ >= 2*MAX_PATH_SIZE)\<close> compares the
  old value of \<open>i\<close> (as unsigned, the bound being a \<open>size_t\<close>) and increments it; the
  branch resets \<open>i\<close> and re-anchors \<open>v\<close> at \<open>vertex[v2]\<close>.
\<close>

definition advance_cursor :: "lamp \<Rightarrow> fault + lamp" where
  "advance_cursor s =
     (let s1 = s\<lparr>v1 := v2 s\<rparr>;
          s2 = s1\<lparr>i := i s1 + 1\<rparr>
      in if unat (i s1) \<ge> 2 * MAX_PATH_SIZE
         then (case vertex_at (v2 s2) of
                 Inl e \<Rightarrow> Inl e
               | Inr c \<Rightarrow> Inr (s2\<lparr>i := 0, v := materialize c\<rparr>))
         else Inr s2)"

text \<open>
  Then the nibble: \<open>path[i>>1] & 0xf\<close> for an odd cursor, \<open>path[i>>1] >> 4\<close> for an
  even one.
\<close>

definition read_nibble :: "lamp \<Rightarrow> fault + lamp" where
  "read_nibble s =
     (case path_at (drop_bit 1 (i s)) of
        Inl e \<Rightarrow> Inl e
      | Inr b \<Rightarrow>
          Inr (s\<lparr>v2 := (if i s AND 1 \<noteq> 0 then b AND 0xf else drop_bit 4 b)\<rparr>))"

definition select_path :: "lamp \<Rightarrow> fault + lamp" where
  "select_path s =
     (case advance_cursor s of
        Inl e \<Rightarrow> Inl e
      | Inr s1 \<Rightarrow>
          (case read_nibble s1 of
             Inl e \<Rightarrow> Inl e
           | Inr s2 \<Rightarrow> Inr (s2\<lparr>lstate := L_ANIMATE\<rparr>)))"

text \<open>The vertex-selection step invoked \<open>n\<close> times in a row, stopping at a fault.\<close>

fun select_times :: "nat \<Rightarrow> lamp \<Rightarrow> fault + lamp" where
  "select_times 0 s = Inr s"
| "select_times (Suc n) s =
     (case select_path s of Inl e \<Rightarrow> Inl e | Inr s' \<Rightarrow> select_times n s')"

section \<open>Sessions of the engine: the notions used in the proofs\<close>

text \<open>The number of steps of a session, \<open>MAX_RGB_VALUE - MIN_RGB_VALUE\<close>.\<close>

definition span :: nat where
  "span = nat (MAX_RGB_VALUE - MIN_RGB_VALUE)"

text \<open>The coordinate \<open>c\<close> after \<open>k\<close> steps with the deltas \<open>a\<close>, \<open>b\<close>, \<open>d\<close>, in 8-bit arithmetic.\<close>

definition stepped :: "coord \<Rightarrow> nat \<Rightarrow> 16 word \<Rightarrow> 16 word \<Rightarrow> 16 word \<Rightarrow> coord" where
  "stepped c k a b d =
     \<lparr>x = x c + of_nat k * ucast a, y = y c + of_nat k * ucast b, z = z c + of_nat k * ucast d\<rparr>"

text \<open>A state inside the session begun in \<open>s0\<close>: the engine is past \<open>S_INIT\<close>, has taken
  \<open>idx\<close> steps and has written the coordinate before each of them.\<close>

definition mid_session :: "lamp \<Rightarrow> 16 word \<Rightarrow> 16 word \<Rightarrow> 16 word \<Rightarrow> lamp \<Rightarrow> bool" where
  "mid_session s0 a b d s \<longleftrightarrow>
     state s \<noteq> S_INIT \<and> dx s = a \<and> dy s = b \<and> dz s = d \<and>
     unat (idx s) \<le> span \<and>
     (state s = S_WAITDELAY \<longrightarrow> unat (idx s) = span) \<and>
     v s = stepped (v s0) (unat (idx s)) a b d \<and>
     sink s = sink s0 @ map (\<lambda>k. stepped (v s0) k a b d) [0..<unat (idx s)]"

text \<open>The state in which that session reports completion.\<close>

definition done_session :: "lamp \<Rightarrow> 16 word \<Rightarrow> 16 word \<Rightarrow> 16 word \<Rightarrow> lamp \<Rightarrow> bool" where
  "done_session s0 a b d s \<longleftrightarrow>
     state s = S_INIT \<and>
     v s = stepped (v s0) span a b d \<and>
     sink s = sink s0 @ map (\<lambda>k. stepped (v s0) k a b d) [0..<span]"

text \<open>Clock readings that are each at least \<open>WAIT_DELAY\<close> after the one before.\<close>

fun spaced :: "32 word \<Rightarrow> 32 word list \<Rightarrow> bool" where
  "spaced p [] = True"
| "spaced p (t # ts) = (t - p \<ge> WAIT_DELAY \<and> spaced t ts)"

text \<open>How many calls the engine still needs when every wait has elapsed at the next call.\<close>

definition remaining :: "lamp \<Rightarrow> nat" where
  "remaining s =
     (case state s of
        S_INIT \<Rightarrow> 2 * span + 3
      | S_LOOP \<Rightarrow> 2 * (span - unat (idx s)) + 2
      | S_WAITTRANS \<Rightarrow> 2 * (span - unat (idx s)) + 3
      | S_WAITDELAY \<Rightarrow> 1)"

text \<open>The timer of a waiting engine was started at the reading \<open>p\<close>.\<close>

definition timed :: "32 word \<Rightarrow> lamp \<Rightarrow> bool" where
  "timed p s \<longleftrightarrow>
     unat (idx s) \<le> span \<and>
     (state s = S_WAITTRANS \<longrightarrow> timeStart s = p \<and> timeDelay s = TRANSITION_DELAY) \<and>
     (state s = S_WAITDELAY \<longrightarrow> timeStart s = p \<and> timeDelay s = WAIT_DELAY)"

text \<open>
  The session from vertex 0 to vertex 7 after start-up, on a clock that is read every
  500 ms.
\<close>

definition black_to_white :: "bool \<times> lamp" where
  "black_to_white =
     drive (delta (x (vertex ! 7)) (x (vertex ! 0)))
           (delta (y (vertex ! 7)) (y (vertex ! 0)))
           (delta (z (vertex ! 7)) (z (vertex ! 0))) (ticks 500 493) setup_lamp"

section \<open>One session, step by step\<close>

lemma span_eq: "span = 245"
  by (simp add: span_def MAX_RGB_VALUE_def MIN_RGB_VALUE_def)

lemma add_delta_eq: "add_delta c d = c + ucast d"
  unfolding add_delta_def
  by (simp add: word_eq_iff_unsigned [where ?'a = int] unsigned_ucast_eq take_bit_word_eq_self
      uint_word_ariths take_bit_eq_mod mod_simps mod_mod_cancel)

lemma stepped_0: "stepped c 0 a b d = c"
  by (simp add: stepped_def)

lemma stepped_Suc:
  "\<lparr>x = add_delta (x (stepped c k a b d)) a,
    y = add_delta (y (stepped c k a b d)) b,
    z = add_delta (z (stepped c k a b d)) d\<rparr> = stepped c (Suc k) a b d"
  by (simp add: stepped_def add_delta_eq algebra_simps)

lemma idx_limit: "uint (w :: 16 word) \<ge> MAX_RGB_VALUE - MIN_RGB_VALUE \<longleftrightarrow> span \<le> unat w"
proof -
  have "uint w = int (unat w)" by simp
  then show ?thesis
    unfolding span_def MAX_RGB_VALUE_def MIN_RGB_VALUE_def by linarith
qed

lemma unat_idx_Suc: "unat (w :: 16 word) < span \<Longrightarrow> unat (w + 1) = Suc (unat w)"
  by (simp add: span_eq unat_word_ariths)

lemma traverse_start:
  assumes "state s = S_INIT" and "\<not> (a = 0 \<and> b = 0 \<and> d = 0)"
  shows "fst (traverse a b d t s) = False" and "mid_session s a b d (snd (traverse a b d t s))"
  using assms by (auto simp: traverse_def mid_session_def stepped_0)

lemma traverse_mid:
  assumes "mid_session s0 a b d s"
  shows "if fst (traverse a' b' d' t s) then done_session s0 a b d (snd (traverse a' b' d' t s))
         else mid_session s0 a b d (snd (traverse a' b' d' t s))"
proof (cases "state s")
  case S_INIT
  with assms show ?thesis by (simp add: mid_session_def)
next
  case S_LOOP
  show ?thesis
  proof (cases "span \<le> unat (idx s)")
    case True
    with assms S_LOOP show ?thesis
      by (simp add: traverse_def mid_session_def idx_limit)
  next
    case False
    then have lt: "unat (idx s) < span" by simp
    with assms S_LOOP show ?thesis
      by (simp add: traverse_def mid_session_def idx_limit unat_idx_Suc stepped_Suc)
  qed
next
  case S_WAITTRANS
  with assms show ?thesis
    by (simp add: traverse_def mid_session_def)
next
  case S_WAITDELAY
  with assms show ?thesis
    by (simp add: traverse_def mid_session_def done_session_def)
qed

lemma drive_mid:
  "mid_session s0 a b d s \<Longrightarrow> drive a' b' d' ts s = (True, s') \<Longrightarrow> done_session s0 a b d s'"
proof (induction ts arbitrary: s)
  case Nil
  then show ?case by simp
next
  case (Cons t ts)
  from traverse_mid [OF Cons.prems(1), of a' b' d' t] Cons.prems(2) Cons.IH
  show ?case
    by (cases "traverse a' b' d' t s") (auto split: if_splits bool.splits)
qed

lemma drive_session:
  assumes "state s = S_INIT" and "\<not> (a = 0 \<and> b = 0 \<and> d = 0)"
    and "drive a b d ts s = (True, s')"
  shows "done_session s a b d s'"
proof (cases ts)
  case Nil
  with assms show ?thesis by simp
next
  case (Cons t ts')
  from traverse_start [OF assms(1,2), of t] assms(3) Cons
  show ?thesis
    by (cases "traverse a b d t s") (auto dest: drive_mid)
qed

lemma visited_mid:
  "mid_session s0 a b d s \<Longrightarrow> u \<in> set (visited a' b' d' ts s) \<Longrightarrow>
     mid_session s0 a b d u \<or> done_session s0 a b d u"
proof (induction ts arbitrary: s)
  case Nil
  then show ?case by simp
next
  case (Cons t ts)
  from traverse_mid [OF Cons.prems(1), of a' b' d' t] Cons.prems Cons.IH
  show ?case
    by (cases "traverse a' b' d' t s") (auto split: if_splits bool.splits)
qed

lemma delay_le: "WAIT_DELAY \<le> w \<Longrightarrow> TRANSITION_DELAY \<le> w"
  by (simp add: WAIT_DELAY_def TRANSITION_DELAY_def word_le_nat_alt)

lemma traverse_timed:
  assumes "timed p s" and "state s \<noteq> S_INIT" and "t - p \<ge> WAIT_DELAY"
  shows "if fst (traverse a b d t s) then remaining s = 1
         else timed t (snd (traverse a b d t s)) \<and> state (snd (traverse a b d t s)) \<noteq> S_INIT \<and>
              Suc (remaining (snd (traverse a b d t s))) = remaining s"
proof (cases "state s")
  case S_INIT
  with assms show ?thesis by simp
next
  case S_LOOP
  show ?thesis
  proof (cases "span \<le> unat (idx s)")
    case True
    with assms S_LOOP show ?thesis
      by (simp add: traverse_def timed_def remaining_def idx_limit)
  next
    case False
    then have lt: "unat (idx s) < span" by simp
    with assms S_LOOP show ?thesis
      by (simp add: traverse_def timed_def remaining_def idx_limit unat_idx_Suc)
  qed
next
  case S_WAITTRANS
  with assms delay_le [of "t - p"] show ?thesis
    by (simp add: traverse_def timed_def remaining_def)
next
  case S_WAITDELAY
  with assms show ?thesis
    by (simp add: traverse_def timed_def remaining_def)
qed

lemma drive_timed:
  "timed p s \<Longrightarrow> state s \<noteq> S_INIT \<Longrightarrow> spaced p ts \<Longrightarrow> remaining s \<le> length ts \<Longrightarrow>
     fst (drive a b d ts s)"
proof (induction ts arbitrary: s p)
  case Nil
  then show ?case
    by (cases "state s") (simp_all add: remaining_def)
next
  case (Cons t ts)
  from Cons.prems(3) have sp: "t - p \<ge> WAIT_DELAY" "spaced t ts"
    by simp_all
  from traverse_timed [OF Cons.prems(1,2) sp(1), of a b d]
  show ?case
  proof (cases "traverse a b d t s")
    case (Pair fl s')
    show ?thesis
    proof (cases fl)
      case True
      with Pair show ?thesis by simp
    next
      case False
      with Pair traverse_timed [OF Cons.prems(1,2) sp(1), of a b d]
      have "timed t s'" "state s' \<noteq> S_INIT" "Suc (remaining s') = remaining s"
        by simp_all
      with Cons.prems(4) Cons.IH [of t s'] sp(2) have "fst (drive a b d ts s')"
        by simp
      with Pair False show ?thesis by simp
    qed
  qed
qed

lemma spaced_ticks_from:
  "spaced (of_nat (k * 500)) (map (\<lambda>j. of_nat (j * 500)) [Suc k..<Suc k + n])"
proof (induction n arbitrary: k)
  case 0
  then show ?case by simp
next
  case (Suc n)
  have "[Suc k..<Suc k + Suc n] = Suc k # [Suc (Suc k)..<Suc (Suc k) + n]"
    by (simp add: upt_rec)
  moreover have "(of_nat (Suc k * 500) :: 32 word) - of_nat (k * 500) = 500"
    by simp
  ultimately show ?case
    using Suc.IH [of "Suc k"] by (simp add: WAIT_DELAY_def)
qed

lemma drive_ticks:
  assumes "state s = S_INIT" and "\<not> (a = 0 \<and> b = 0 \<and> d = 0)"
  shows "fst (drive a b d (ticks 500 (2 * span + 3)) s)"
proof -
  let ?s1 = "snd (traverse a b d 0 s)"
  have split: "ticks 500 (2 * span + 3) = 0 # map (\<lambda>j. of_nat (j * 500)) [Suc 0..<Suc 0 + (2 * span + 2)]"
  proof -
    have "2 * span + 3 = Suc (2 * span + 2)" "Suc 0 + (2 * span + 2) = Suc (2 * span + 2)"
      by simp_all
    moreover have "[0..<Suc (2 * span + 2)] = 0 # [Suc 0..<Suc (2 * span + 2)]"
      by (rule upt_conv_Cons) simp
    ultimately show ?thesis
      unfolding ticks_def by (simp only: list.map mult_zero_left semiring_1_class.of_nat_0)
  qed
  have s1: "?s1 = s\<lparr>idx := 0, dx := a, dy := b, dz := d, state := S_LOOP\<rparr>"
    and fl: "fst (traverse a b d 0 s) = False"
    using assms by (auto simp: traverse_def)
  have "timed 0 ?s1" "state ?s1 \<noteq> S_INIT" "remaining ?s1 = 2 * span + 2"
    by (simp_all add: s1 timed_def remaining_def)
  with spaced_ticks_from [of 0 "2 * span + 2"]
  have "fst (drive a b d (map (\<lambda>j. of_nat (j * 500)) [Suc 0..<Suc 0 + (2 * span + 2)]) ?s1)"
    by (intro drive_timed [of 0]) simp_all
  with fl show ?thesis
    unfolding split by (cases "traverse a b d 0 s") simp
qed

section \<open>The engine in its idle state\<close>

text \<open>
  C8: a call of the engine in state \<open>S_INIT\<close> with all three deltas zero returns true
  at once, writes nothing to the output and changes nothing: neither the coordinate
  nor any static variable of the engine.
\<close>

theorem traverse_idle_zero:
  "state s = S_INIT \<Longrightarrow> traverse 0 0 0 now s = (True, s)"
  by (simp add: traverse_def)

theorem traverse_idle_zero_witness:
  "state setup_lamp = S_INIT \<and> traverse 0 0 0 1234 setup_lamp = (True, setup_lamp)"
proof -
  have h: "state setup_lamp = S_INIT"
    by (simp add: setup_lamp_def)
  from traverse_idle_zero [OF h, of 1234] h show ?thesis
    by simp
qed

section \<open>The vertex table\<close>

lemma vertex_axes:
  assumes "A < MAX_VERTICES"
  shows "x (vertex ! A) \<in> {0, 1}" and "y (vertex ! A) \<in> {0, 1}" and "z (vertex ! A) \<in> {0, 1}"
proof -
  have "\<forall>c \<in> set vertex. x c \<in> {0, 1} \<and> y c \<in> {0, 1} \<and> z c \<in> {0, 1}"
    by (simp add: vertex_def)
  moreover from assms have "vertex ! A \<in> set vertex"
    by (simp add: MAX_VERTICES_def)
  ultimately show "x (vertex ! A) \<in> {0, 1}" and "y (vertex ! A) \<in> {0, 1}"
    and "z (vertex ! A) \<in> {0, 1}"
    by blast+
qed

lemma vertex_distinct:
  assumes "A < MAX_VERTICES" and "B < MAX_VERTICES" and "A \<noteq> B"
  shows "vertex ! A \<noteq> vertex ! B"
proof -
  have "distinct vertex"
    by (simp add: vertex_def)
  with assms show ?thesis
    by (simp add: MAX_VERTICES_def nth_eq_iff_index_eq)
qed

lemma unat_ucast_8_16: "unat (ucast (q :: 8 word) :: 16 word) = unat q"
proof -
  have "unat q < 2 ^ 8"
    using unsigned_less [of q] by simp
  then have "unat q < 2 ^ 16"
    by simp
  then show ?thesis
    by (simp add: unsigned_ucast_eq take_bit_nat_eq_self)
qed

lemma ucast_minus_1: "(ucast (- 1 :: 16 word) :: 8 word) = - 1"
  by (rule bit_word_eqI) (simp add: bit_simps)

lemma delta_zero: "delta q p = 0 \<longleftrightarrow> q = p"
proof -
  have "delta q p = 0 \<longleftrightarrow> (ucast q :: 16 word) = ucast p"
    by (simp add: delta_def)
  also have "\<dots> \<longleftrightarrow> unat (ucast q :: 16 word) = unat (ucast p :: 16 word)"
    by (simp only: word_unat_eq_iff)
  also have "\<dots> \<longleftrightarrow> q = p"
    by (simp only: unat_ucast_8_16 word_unat_eq_iff)
  finally show ?thesis .
qed

lemma deltas_nonzero:
  assumes "A < MAX_VERTICES" and "B < MAX_VERTICES" and "A \<noteq> B"
  shows "\<not> (delta (x (vertex ! B)) (x (vertex ! A)) = 0 \<and>
            delta (y (vertex ! B)) (y (vertex ! A)) = 0 \<and>
            delta (z (vertex ! B)) (z (vertex ! A)) = 0)"
  using vertex_distinct [OF assms] by (auto simp: delta_zero)

lemma axis_sint: "p \<in> {0, 1} \<Longrightarrow> q \<in> {0, 1} \<Longrightarrow> sint (delta q p) \<in> {-1, 0, 1}"
  by (auto simp: delta_def)

lemma axis_reached:
  "p \<in> {0, 1} \<Longrightarrow> q \<in> {0, 1} \<Longrightarrow>
     (if p \<noteq> 0 then word_of_int MAX_RGB_VALUE else word_of_int MIN_RGB_VALUE :: 8 word)
       + of_nat span * ucast (delta q p)
     = (if q \<noteq> 0 then word_of_int MAX_RGB_VALUE else word_of_int MIN_RGB_VALUE)"
  by (auto simp: delta_def span_eq MAX_RGB_VALUE_def MIN_RGB_VALUE_def ucast_minus_1)

lemma target_reached:
  assumes "A < MAX_VERTICES" and "B < MAX_VERTICES"
  shows "stepped (materialize (vertex ! A)) span
           (delta (x (vertex ! B)) (x (vertex ! A)))
           (delta (y (vertex ! B)) (y (vertex ! A)))
           (delta (z (vertex ! B)) (z (vertex ! A))) = materialize (vertex ! B)"
  using vertex_axes [OF assms(1)] vertex_axes [OF assms(2)]
  by (simp add: stepped_def materialize_def axis_reached del: insert_iff)

lemma deltas_0_7:
  "delta (x (vertex ! 7)) (x (vertex ! 0)) = 1"
  "delta (y (vertex ! 7)) (y (vertex ! 0)) = 1"
  "delta (z (vertex ! 7)) (z (vertex ! 0)) = 1"
  by (simp_all add: vertex_def delta_def)

lemma setup_lamp_simps:
  "state setup_lamp = S_INIT"
  "v setup_lamp = materialize (vertex ! 0)"
  "sink setup_lamp = []"
  by (simp_all add: setup_lamp_def)

lemma materialize_0: "materialize (vertex ! 0) = \<lparr>x = 10, y = 10, z = 10\<rparr>"
  by (simp add: materialize_def vertex_def MIN_RGB_VALUE_def)

lemma black_to_white_completes: "fst black_to_white"
proof -
  have "2 * span + 3 = 493"
    by (simp add: span_eq)
  with drive_ticks [of setup_lamp 1 1 1] show ?thesis
    by (simp add: black_to_white_def deltas_0_7 setup_lamp_simps)
qed

lemma black_to_white_done: "done_session setup_lamp 1 1 1 (snd black_to_white)"
proof -
  have "drive 1 1 1 (ticks 500 493) setup_lamp = (True, snd black_to_white)"
    using black_to_white_completes
    by (simp add: black_to_white_def deltas_0_7 prod_eq_iff)
  then show ?thesis
    by (intro drive_session) (simp_all add: setup_lamp_simps)
qed

section \<open>Where a session ends\<close>

text \<open>
  C1: for two different vertices \<open>A\<close> and \<open>B\<close>, if the coordinate is the materialized
  \<open>A\<close> when the session towards \<open>B\<close> starts, then at the call on which the engine
  reports completion the coordinate is the materialized \<open>B\<close>, on all three axes.
\<close>

theorem session_reaches_target:
  assumes "A < MAX_VERTICES" and "B < MAX_VERTICES" and "A \<noteq> B"
    and "state s = S_INIT"
    and "v s = materialize (vertex ! A)"
    and "drive (delta (x (vertex ! B)) (x (vertex ! A)))
               (delta (y (vertex ! B)) (y (vertex ! A)))
               (delta (z (vertex ! B)) (z (vertex ! A))) ts s = (True, s')"
  shows "v s' = materialize (vertex ! B)"
proof -
  from drive_session [OF assms(4) deltas_nonzero [OF assms(1-3)] assms(6)]
  show ?thesis
    by (simp add: done_session_def assms(5) target_reached [OF assms(1,2)])
qed

theorem session_reaches_target_witness:
  "(0 :: nat) < MAX_VERTICES \<and> 7 < MAX_VERTICES \<and> (0 :: nat) \<noteq> 7 \<and>
   state setup_lamp = S_INIT \<and> v setup_lamp = materialize (vertex ! 0) \<and>
   drive (delta (x (vertex ! 7)) (x (vertex ! 0)))
         (delta (y (vertex ! 7)) (y (vertex ! 0)))
         (delta (z (vertex ! 7)) (z (vertex ! 0))) (ticks 500 493) setup_lamp
     = (True, snd black_to_white) \<and>
   v (snd black_to_white) = materialize (vertex ! 7)"
proof -
  have h1: "(0 :: nat) < MAX_VERTICES" and h2: "7 < MAX_VERTICES"
    by (simp_all add: MAX_VERTICES_def vertex_def)
  have h3: "(0 :: nat) \<noteq> 7"
    by simp
  have h4: "state setup_lamp = S_INIT" and h5: "v setup_lamp = materialize (vertex ! 0)"
    by (simp_all add: setup_lamp_simps)
  have h6: "drive (delta (x (vertex ! 7)) (x (vertex ! 0)))
         (delta (y (vertex ! 7)) (y (vertex ! 0)))
         (delta (z (vertex ! 7)) (z (vertex ! 0))) (ticks 500 493) setup_lamp
     = (True, snd black_to_white)"
    using black_to_white_completes by (simp add: black_to_white_def prod_eq_iff)
  from session_reaches_target [OF h1 h2 h3 h4 h5 h6] h1 h2 h3 h4 h5 h6
  show ?thesis
    by simp
qed

text \<open>
  C3: a session whose deltas are not all zero writes to the output exactly
  \<open>MAX_RGB_VALUE - MIN_RGB_VALUE\<close> times, that is 245 times, between its start and the
  call that reports completion.
\<close>

theorem session_write_count:
  assumes "state s = S_INIT" and "\<not> (a = 0 \<and> b = 0 \<and> d = 0)"
    and "drive a b d ts s = (True, s')"
  shows "\<exists>ws. sink s' = sink s @ ws \<and>
           int (length ws) = MAX_RGB_VALUE - MIN_RGB_VALUE \<and> length ws = 245"
proof -
  from drive_session [OF assms]
  have "sink s' = sink s @ map (\<lambda>k. stepped (v s) k a b d) [0..<span]"
    by (simp add: done_session_def)
  moreover have "int (length (map (\<lambda>k. stepped (v s) k a b d) [0..<span]))
      = MAX_RGB_VALUE - MIN_RGB_VALUE"
    by (simp add: span_def MAX_RGB_VALUE_def MIN_RGB_VALUE_def)
  moreover have "length (map (\<lambda>k. stepped (v s) k a b d) [0..<span]) = 245"
    by (simp add: span_eq)
  ultimately show ?thesis
    by blast
qed

theorem session_write_count_witness:
  "state setup_lamp = S_INIT \<and> \<not> ((1 :: 16 word) = 0 \<and> (1 :: 16 word) = 0 \<and> (1 :: 16 word) = 0) \<and>
   drive 1 1 1 (ticks 500 493) setup_lamp = (True, snd black_to_white) \<and>
   (\<exists>ws. sink (snd black_to_white) = sink setup_lamp @ ws \<and>
      int (length ws) = MAX_RGB_VALUE - MIN_RGB_VALUE \<and> length ws = 245)"
proof -
  have h1: "state setup_lamp = S_INIT"
    by (simp add: setup_lamp_simps)
  have h2: "\<not> ((1 :: 16 word) = 0 \<and> (1 :: 16 word) = 0 \<and> (1 :: 16 word) = 0)"
    by simp
  have h3: "drive 1 1 1 (ticks 500 493) setup_lamp = (True, snd black_to_white)"
    using black_to_white_completes
    by (simp add: black_to_white_def deltas_0_7 prod_eq_iff)
  from session_write_count [OF h1 h2 h3] h1 h2 h3 show ?thesis
    by simp
qed

section \<open>The deltas that the engine is given\<close>

text \<open>
  C2 (as amended): the three deltas passed to the engine, the target vertex's table
  entry minus the current vertex's table entry on each axis (the table holds 0 and
  1), are each an element of {-1, 0, +1}: the magnitude of a delta is exactly 1 or 0.
\<close>

theorem deltas_unit:
  assumes "A < MAX_VERTICES" and "B < MAX_VERTICES"
  shows "sint (delta (x (vertex ! B)) (x (vertex ! A))) \<in> {-1, 0, 1} \<and>
         sint (delta (y (vertex ! B)) (y (vertex ! A))) \<in> {-1, 0, 1} \<and>
         sint (delta (z (vertex ! B)) (z (vertex ! A))) \<in> {-1, 0, 1}"
  using vertex_axes [OF assms(1)] vertex_axes [OF assms(2)]
  by (simp add: axis_sint del: insert_iff)

theorem deltas_unit_witness:
  "(0 :: nat) < MAX_VERTICES \<and> 7 < MAX_VERTICES \<and>
   sint (delta (x (vertex ! 7)) (x (vertex ! 0))) \<in> {-1, 0, 1} \<and>
   sint (delta (y (vertex ! 7)) (y (vertex ! 0))) \<in> {-1, 0, 1} \<and>
   sint (delta (z (vertex ! 7)) (z (vertex ! 0))) \<in> {-1, 0, 1}"
proof -
  have h1: "(0 :: nat) < MAX_VERTICES" and h2: "7 < MAX_VERTICES"
    by (simp_all add: MAX_VERTICES_def vertex_def)
  from deltas_unit [OF h1 h2] h1 h2 show ?thesis
    by simp
qed

theorem deltas_magnitude_counterexample:
  "sint (delta (x (vertex ! 7)) (x (vertex ! 0))) = 1 \<and>
   sint (delta (x (vertex ! 7)) (x (vertex ! 0)))
     \<notin> {- (MAX_RGB_VALUE - MIN_RGB_VALUE), 0, MAX_RGB_VALUE - MIN_RGB_VALUE}"
  by (simp add: deltas_0_7 MAX_RGB_VALUE_def MIN_RGB_VALUE_def)

section \<open>What a session writes\<close>

lemma unat_up:
  assumes "k \<le> span"
  shows "unat (10 + of_nat k :: 8 word) = 10 + k"
proof -
  from assms have "k < 246"
    by (simp add: span_eq)
  then show ?thesis
    by (simp add: unat_word_ariths unat_of_nat)
qed

lemma stepped_up:
  "stepped \<lparr>x = 10, y = 10, z = 10\<rparr> k 1 1 1 =
     \<lparr>x = 10 + of_nat k, y = 10 + of_nat k, z = 10 + of_nat k\<rparr>"
  by (simp add: stepped_def)

lemma last_ramp:
  "last (map (\<lambda>k. \<lparr>x = 10 + of_nat k, y = 10 + of_nat k, z = 10 + of_nat k :: 8 word\<rparr>) [0..<245])
     = \<lparr>x = 254, y = 254, z = 254\<rparr>"
proof -
  have "[0..<245 :: nat] \<noteq> []"
    by simp
  then have "last (map (\<lambda>k. \<lparr>x = 10 + of_nat k, y = 10 + of_nat k, z = 10 + of_nat k :: 8 word\<rparr>) [0..<245]) =
      (\<lambda>k. \<lparr>x = 10 + of_nat k, y = 10 + of_nat k, z = 10 + of_nat k :: 8 word\<rparr>) (last [0..<245])"
    by (rule last_map)
  moreover have "last [0..<245 :: nat] = 244"
    using last_upt [of 0 245] by simp
  ultimately show ?thesis
    by simp
qed

lemma black_to_white_run:
  "drive (delta (x (vertex ! 7)) (x (vertex ! 0)))
         (delta (y (vertex ! 7)) (y (vertex ! 0)))
         (delta (z (vertex ! 7)) (z (vertex ! 0))) (ticks 500 493) setup_lamp
     = (True, snd black_to_white)"
  using black_to_white_completes by (simp add: black_to_white_def prod_eq_iff)

lemma black_to_white_sink:
  "sink (snd black_to_white) =
     map (\<lambda>k. \<lparr>x = 10 + of_nat k, y = 10 + of_nat k, z = 10 + of_nat k :: 8 word\<rparr>) [0..<245]"
  using black_to_white_done
  by (simp add: done_session_def setup_lamp_simps materialize_0 stepped_up span_eq)

text \<open>
  C4 (as amended): from vertex 0, materialized as (10, 10, 10), to vertex 7, the
  session makes exactly 245 writes; the first is (10, 10, 10), each later one is one
  more on all three axes than the one before, and the last is (254, 254, 254). The
  coordinate itself is (255, 255, 255) when completion is reported; that value is not
  written during the session.
\<close>

theorem black_to_white_writes:
  assumes "state s = S_INIT" and "v s = materialize (vertex ! 0)"
    and "drive (delta (x (vertex ! 7)) (x (vertex ! 0)))
               (delta (y (vertex ! 7)) (y (vertex ! 0)))
               (delta (z (vertex ! 7)) (z (vertex ! 0))) ts s = (True, s')"
  shows "\<exists>ws. sink s' = sink s @ ws \<and> length ws = 245 \<and>
           ws ! 0 = \<lparr>x = 10, y = 10, z = 10\<rparr> \<and>
           (\<forall>k < 244. unat (x (ws ! Suc k)) = unat (x (ws ! k)) + 1 \<and>
                       unat (y (ws ! Suc k)) = unat (y (ws ! k)) + 1 \<and>
                       unat (z (ws ! Suc k)) = unat (z (ws ! k)) + 1) \<and>
           last ws = \<lparr>x = 254, y = 254, z = 254\<rparr> \<and>
           v s' = \<lparr>x = 255, y = 255, z = 255\<rparr>"
proof -
  let ?ws = "map (\<lambda>k. \<lparr>x = 10 + of_nat k, y = 10 + of_nat k, z = 10 + of_nat k :: 8 word\<rparr>) [0..<245]"
  have nz: "\<not> ((1 :: 16 word) = 0 \<and> (1 :: 16 word) = 0 \<and> (1 :: 16 word) = 0)"
    by simp
  from assms(3) have "drive 1 1 1 ts s = (True, s')"
    by (simp add: deltas_0_7)
  from drive_session [OF assms(1) nz this]
  have sk: "sink s' = sink s @ ?ws" and vs: "v s' = \<lparr>x = 255, y = 255, z = 255\<rparr>"
    by (simp_all add: done_session_def assms(2) materialize_0 stepped_up span_eq)
  have len: "length ?ws = 245"
    by simp
  have first: "?ws ! 0 = \<lparr>x = 10, y = 10, z = 10\<rparr>"
    by (simp add: nth_map [of 0] del: upt_Suc)
  have step: "unat (x (?ws ! Suc k)) = unat (x (?ws ! k)) + 1 \<and>
              unat (y (?ws ! Suc k)) = unat (y (?ws ! k)) + 1 \<and>
              unat (z (?ws ! Suc k)) = unat (z (?ws ! k)) + 1" if "k < 244" for k
  proof -
    from that have "k \<le> span" "Suc k \<le> span"
      by (simp_all add: span_eq)
    then have "unat (10 + of_nat (Suc k) :: 8 word) = unat (10 + of_nat k :: 8 word) + 1"
      by (simp only: unat_up)
    with that show ?thesis
      by (simp add: nth_map del: upt_Suc of_nat_Suc)
  qed
  note lst = last_ramp
  from sk len first step lst vs show ?thesis
    by blast
qed

theorem black_to_white_writes_witness:
  "state setup_lamp = S_INIT \<and> v setup_lamp = materialize (vertex ! 0) \<and>
   drive (delta (x (vertex ! 7)) (x (vertex ! 0)))
         (delta (y (vertex ! 7)) (y (vertex ! 0)))
         (delta (z (vertex ! 7)) (z (vertex ! 0))) (ticks 500 493) setup_lamp
     = (True, snd black_to_white) \<and>
   (\<exists>ws. sink (snd black_to_white) = sink setup_lamp @ ws \<and> length ws = 245 \<and>
      ws ! 0 = \<lparr>x = 10, y = 10, z = 10\<rparr> \<and>
      (\<forall>k < 244. unat (x (ws ! Suc k)) = unat (x (ws ! k)) + 1 \<and>
                  unat (y (ws ! Suc k)) = unat (y (ws ! k)) + 1 \<and>
                  unat (z (ws ! Suc k)) = unat (z (ws ! k)) + 1) \<and>
      last ws = \<lparr>x = 254, y = 254, z = 254\<rparr> \<and>
      v (snd black_to_white) = \<lparr>x = 255, y = 255, z = 255\<rparr>)"
proof -
  have h1: "state setup_lamp = S_INIT" and h2: "v setup_lamp = materialize (vertex ! 0)"
    by (simp_all add: setup_lamp_simps)
  note h3 = black_to_white_run
  from black_to_white_writes [OF h1 h2 h3] h1 h2 h3 show ?thesis
    by simp
qed

theorem final_write_counterexample:
  "fst black_to_white \<and>
   length (sink (snd black_to_white)) = 245 \<and>
   last (sink (snd black_to_white)) = \<lparr>x = 254, y = 254, z = 254\<rparr> \<and>
   last (sink (snd black_to_white)) \<noteq> \<lparr>x = 255, y = 255, z = 255\<rparr>"
proof -
  have "length (sink (snd black_to_white)) = 245"
    by (simp only: black_to_white_sink length_map length_upt)
  moreover have "last (sink (snd black_to_white)) = \<lparr>x = 254, y = 254, z = 254\<rparr>"
    by (simp only: black_to_white_sink last_ramp)
  ultimately show ?thesis
    using black_to_white_completes by simp
qed

section \<open>The coordinate stays on the segment\<close>

lemma visited_session:
  assumes "state s = S_INIT" and "u \<in> set (visited a b d ts s)"
  shows "\<exists>k \<le> span. v u = stepped (v s) k a b d"
proof (cases ts)
  case Nil
  with assms(2) have "v u = stepped (v s) 0 a b d"
    by (simp add: stepped_0)
  then show ?thesis
    by blast
next
  case (Cons t ts')
  show ?thesis
  proof (cases "a = 0 \<and> b = 0 \<and> d = 0")
    case True
    with assms(1) have "traverse a b d t s = (True, s)"
      by (simp add: traverse_def)
    with assms(2) Cons have "v u = stepped (v s) 0 a b d"
      by (auto simp: stepped_0)
    then show ?thesis
      by blast
  next
    case False
    note st = traverse_start [OF assms(1) False, of t]
    from assms(2) Cons st(1)
    have "u = s \<or> u \<in> set (visited a b d ts' (snd (traverse a b d t s)))"
      by (cases "traverse a b d t s") auto
    then show ?thesis
    proof
      assume "u = s"
      then have "v u = stepped (v s) 0 a b d"
        by (simp add: stepped_0)
      then show ?thesis
        by blast
    next
      assume "u \<in> set (visited a b d ts' (snd (traverse a b d t s)))"
      from visited_mid [OF st(2) this]
      show ?thesis
        by (auto simp: mid_session_def done_session_def)
    qed
  qed
qed

lemma unat_down:
  assumes "k \<le> span"
  shows "unat (255 - of_nat k :: 8 word) = 255 - k"
proof -
  from assms have k: "k < 246"
    by (simp add: span_eq)
  then have "unat (of_nat k :: 8 word) = k"
    by (simp add: unat_of_nat)
  moreover from this k have "(of_nat k :: 8 word) \<le> 255"
    by (simp add: word_le_nat_alt)
  ultimately show ?thesis
    by (simp add: unat_sub)
qed

lemma axis_on_segment:
  assumes "p \<in> {0, 1}" and "q \<in> {0, 1}" and "k \<le> span"
  shows "real (unat ((if p \<noteq> 0 then word_of_int MAX_RGB_VALUE else word_of_int MIN_RGB_VALUE :: 8 word)
                 + of_nat k * ucast (delta q p)))
       = real (unat (if p \<noteq> 0 then word_of_int MAX_RGB_VALUE else word_of_int MIN_RGB_VALUE :: 8 word))
         + (real k / real span)
           * (real (unat (if q \<noteq> 0 then word_of_int MAX_RGB_VALUE else word_of_int MIN_RGB_VALUE :: 8 word))
              - real (unat (if p \<noteq> 0 then word_of_int MAX_RGB_VALUE else word_of_int MIN_RGB_VALUE :: 8 word)))"
proof -
  from assms(3) have k: "k \<le> 245"
    by (simp add: span_eq)
  have up: "(unsigned (10 + of_nat k :: 8 word) :: real) = 10 + real k"
  proof -
    have "(unsigned (10 + of_nat k :: 8 word) :: real) = real (unat (10 + of_nat k :: 8 word))"
      by simp
    also have "\<dots> = real (10 + k)"
      by (simp only: unat_up [OF assms(3)])
    finally show ?thesis
      by simp
  qed
  have down: "(unsigned (255 - of_nat k :: 8 word) :: real) = 255 - real k"
  proof -
    have "(unsigned (255 - of_nat k :: 8 word) :: real) = real (unat (255 - of_nat k :: 8 word))"
      by simp
    also have "\<dots> = real (255 - k)"
      by (simp only: unat_down [OF assms(3)])
    finally show ?thesis
      using k by simp
  qed
  from assms(1,2) consider "p = 0" "q = 0" | "p = 0" "q = 1" | "p = 1" "q = 0" | "p = 1" "q = 1"
    by auto
  then show ?thesis
  proof cases
    case 1
    then show ?thesis by (simp add: delta_def)
  next
    case 2
    then show ?thesis
      by (simp add: delta_def MAX_RGB_VALUE_def MIN_RGB_VALUE_def span_eq up)
  next
    case 3
    then show ?thesis
      by (simp add: delta_def MAX_RGB_VALUE_def MIN_RGB_VALUE_def span_eq ucast_minus_1 down)
  next
    case 4
    then show ?thesis by (simp add: delta_def)
  qed
qed

text \<open>
  C9: in every state that the lamp is in during a session from vertex \<open>A\<close> to vertex
  \<open>B\<close>, begun with the coordinate at the materialized \<open>A\<close>, the coordinate lies on the
  straight segment between the materialized \<open>A\<close> and the materialized \<open>B\<close>, both
  ends included.
\<close>

theorem session_on_segment:
  assumes "A < MAX_VERTICES" and "B < MAX_VERTICES"
    and "state s = S_INIT"
    and "v s = materialize (vertex ! A)"
    and "u \<in> set (visited (delta (x (vertex ! B)) (x (vertex ! A)))
                          (delta (y (vertex ! B)) (y (vertex ! A)))
                          (delta (z (vertex ! B)) (z (vertex ! A))) ts s)"
  shows "on_segment (materialize (vertex ! A)) (materialize (vertex ! B)) (v u)"
proof -
  from visited_session [OF assms(3,5)] assms(4)
  obtain k where k: "k \<le> span"
    and vu: "v u = stepped (materialize (vertex ! A)) k
                     (delta (x (vertex ! B)) (x (vertex ! A)))
                     (delta (y (vertex ! B)) (y (vertex ! A)))
                     (delta (z (vertex ! B)) (z (vertex ! A)))"
    by auto
  let ?t = "real k / real span"
  from k have "0 \<le> ?t" and "?t \<le> 1"
    by (simp_all add: span_eq)
  moreover note ax = vertex_axes [OF assms(1)] and bx = vertex_axes [OF assms(2)]
  have "real (unat (x (v u))) = real (unat (x (materialize (vertex ! A))))
          + ?t * (real (unat (x (materialize (vertex ! B)))) - real (unat (x (materialize (vertex ! A)))))"
    unfolding vu using axis_on_segment [OF ax(1) bx(1) k]
    by (simp add: stepped_def materialize_def)
  moreover
  have "real (unat (y (v u))) = real (unat (y (materialize (vertex ! A))))
          + ?t * (real (unat (y (materialize (vertex ! B)))) - real (unat (y (materialize (vertex ! A)))))"
    unfolding vu using axis_on_segment [OF ax(2) bx(2) k]
    by (simp add: stepped_def materialize_def)
  moreover
  have "real (unat (z (v u))) = real (unat (z (materialize (vertex ! A))))
          + ?t * (real (unat (z (materialize (vertex ! B)))) - real (unat (z (materialize (vertex ! A)))))"
    unfolding vu using axis_on_segment [OF ax(3) bx(3) k]
    by (simp add: stepped_def materialize_def)
  ultimately show ?thesis
    unfolding on_segment_def by blast
qed

theorem session_on_segment_witness:
  "(0 :: nat) < MAX_VERTICES \<and> 7 < MAX_VERTICES \<and>
   state setup_lamp = S_INIT \<and> v setup_lamp = materialize (vertex ! 0) \<and>
   last (visited (delta (x (vertex ! 7)) (x (vertex ! 0)))
                 (delta (y (vertex ! 7)) (y (vertex ! 0)))
                 (delta (z (vertex ! 7)) (z (vertex ! 0))) [0, 1] setup_lamp)
     \<in> set (visited (delta (x (vertex ! 7)) (x (vertex ! 0)))
                     (delta (y (vertex ! 7)) (y (vertex ! 0)))
                     (delta (z (vertex ! 7)) (z (vertex ! 0))) [0, 1] setup_lamp) \<and>
   v (last (visited (delta (x (vertex ! 7)) (x (vertex ! 0)))
                    (delta (y (vertex ! 7)) (y (vertex ! 0)))
                    (delta (z (vertex ! 7)) (z (vertex ! 0))) [0, 1] setup_lamp))
     = \<lparr>x = 11, y = 11, z = 11\<rparr> \<and>
   on_segment (materialize (vertex ! 0)) (materialize (vertex ! 7))
     (v (last (visited (delta (x (vertex ! 7)) (x (vertex ! 0)))
                       (delta (y (vertex ! 7)) (y (vertex ! 0)))
                       (delta (z (vertex ! 7)) (z (vertex ! 0))) [0, 1] setup_lamp)))"
proof -
  let ?u = "last (visited (delta (x (vertex ! 7)) (x (vertex ! 0)))
                 (delta (y (vertex ! 7)) (y (vertex ! 0)))
                 (delta (z (vertex ! 7)) (z (vertex ! 0))) [0, 1] setup_lamp)"
  have h1: "(0 :: nat) < MAX_VERTICES" and h2: "7 < MAX_VERTICES"
    by (simp_all add: MAX_VERTICES_def vertex_def)
  have h3: "state setup_lamp = S_INIT" and h4: "v setup_lamp = materialize (vertex ! 0)"
    by (simp_all add: setup_lamp_simps)
  have h5: "?u \<in> set (visited (delta (x (vertex ! 7)) (x (vertex ! 0)))
                     (delta (y (vertex ! 7)) (y (vertex ! 0)))
                     (delta (z (vertex ! 7)) (z (vertex ! 0))) [0, 1] setup_lamp)"
    by (simp add: deltas_0_7 traverse_def setup_lamp_def MAX_RGB_VALUE_def MIN_RGB_VALUE_def)
  have vu: "v ?u = \<lparr>x = 11, y = 11, z = 11\<rparr>"
    by (simp add: deltas_0_7 traverse_def setup_lamp_def MAX_RGB_VALUE_def MIN_RGB_VALUE_def
        materialize_0 add_delta_eq)
  from session_on_segment [OF h1 h2 h3 h4 h5] h1 h2 h3 h4 h5 vu show ?thesis
    by simp
qed

section \<open>After completion\<close>

lemma traverse_flag: "fst (traverse a b d t s) = (state (snd (traverse a b d t s)) = S_INIT)"
  by (simp add: traverse_def Let_def)

lemma drive_ends_idle: "drive a b d ts s = (True, s') \<Longrightarrow> state s' = S_INIT"
proof (induction ts arbitrary: s)
  case Nil
  then show ?case by simp
next
  case (Cons t ts)
  from Cons.prems Cons.IH traverse_flag [of a b d t s] show ?case
    by (cases "traverse a b d t s") (auto split: bool.splits)
qed

lemma idle_zero_fold:
  "state s = S_INIT \<Longrightarrow> fold (\<lambda>t u. snd (traverse 0 0 0 t u)) ts s = s"
  by (induction ts) (simp_all add: traverse_def)

lemma idle_first_call: "state s = S_INIT \<Longrightarrow> v (snd (traverse a b d t s)) = v s"
  by (simp add: traverse_def)

text \<open>
  C10: once a session has reported completion, calling the engine again any number
  of times before a new target vertex is set leaves the coordinate unchanged. With
  the target still the vertex reached, the three deltas of such a call are zero:
  these calls leave the whole state unchanged and report completion again. The call
  that then presents a new target, with whatever deltas, leaves the coordinate
  unchanged as well.
\<close>

theorem calls_after_completion:
  assumes "drive a b d ts s = (True, s')"
  shows "fold (\<lambda>t u. snd (traverse 0 0 0 t u)) ts' s' = s' \<and>
         fst (traverse 0 0 0 t s') \<and>
         v (snd (traverse a' b' d' t s')) = v s'"
proof -
  from assms have idle: "state s' = S_INIT"
    by (rule drive_ends_idle)
  then show ?thesis
    by (simp add: idle_zero_fold idle_first_call) (simp add: traverse_def)
qed

theorem calls_after_completion_witness:
  "drive 1 1 1 (ticks 500 493) setup_lamp = (True, snd black_to_white) \<and>
   fold (\<lambda>t u. snd (traverse 0 0 0 t u)) [246500, 247000, 247500] (snd black_to_white)
     = snd black_to_white \<and>
   fst (traverse 0 0 0 246500 (snd black_to_white)) \<and>
   v (snd (traverse (- 1) (- 1) (- 1) 246500 (snd black_to_white))) = v (snd black_to_white)"
proof -
  have h: "drive 1 1 1 (ticks 500 493) setup_lamp = (True, snd black_to_white)"
    using black_to_white_run by (simp add: deltas_0_7)
  from calls_after_completion [OF h, of "[246500, 247000, 247500]" 246500 "- 1" "- 1" "- 1"] h
  show ?thesis
    by simp
qed

section \<open>The random selector\<close>

lemma digit_sum_bound: "n < 10 ^ k \<Longrightarrow> digit_sum n \<le> 9 * k"
proof (induction k arbitrary: n)
  case 0
  then show ?case
    by (simp add: digit_sum.simps)
next
  case (Suc k)
  show ?case
  proof (cases "n = 0")
    case True
    then show ?thesis
      by (simp add: digit_sum.simps)
  next
    case False
    from Suc.prems have "n div 10 < 10 ^ k"
      by (simp add: less_mult_imp_div_less mult.commute)
    then have "digit_sum (n div 10) \<le> 9 * k"
      by (rule Suc.IH)
    moreover have "n mod 10 \<le> 9"
      by simp
    moreover from False have "digit_sum n = n mod 10 + digit_sum (n div 10)"
      by (subst digit_sum.simps) simp
    ultimately show ?thesis
      by simp
  qed
qed

lemma digit_sum_u32: "digit_sum (unat (n :: 32 word)) \<le> 90"
proof -
  have "unat n < 2 ^ 32"
    using unsigned_less [of n] by simp
  also have "\<dots> < (10 :: nat) ^ 10"
    by simp
  finally show ?thesis
    using digit_sum_bound [of "unat n" 10] by simp
qed

lemma MD_Random_loop_sum:
  "unat r + digit_sum (unat n) < 65536 \<Longrightarrow>
     unat (MD_Random_loop n r) = unat r + digit_sum (unat n)"
proof (induction n r rule: MD_Random_loop.induct)
  case (1 n r)
  show ?case
  proof (cases "0 < n")
    case False
    then have "n = 0"
      by (simp add: word_gt_0)
    then show ?thesis
      by (simp add: digit_sum.simps)
  next
    case True
    then have nz: "unat n \<noteq> 0"
      by (simp add: word_less_nat_alt)
    then have ds: "digit_sum (unat n) = unat n mod 10 + digit_sum (unat n div 10)"
      by (subst digit_sum.simps) simp
    have m: "unat (ucast (n mod 10) :: 16 word) = unat n mod 10"
    proof -
      have "unat (n mod 10) = unat n mod 10"
        by (simp add: unat_mod)
      moreover have "unat n mod 10 < 2 ^ 16"
        by (rule less_trans [of _ 10]) simp_all
      ultimately show ?thesis
        by (simp add: unsigned_ucast_eq take_bit_nat_eq_self)
    qed
    from "1.prems" ds have small: "unat r + unat n mod 10 < 65536"
      by simp
    have r': "unat (r + ucast (n mod 10)) = unat r + unat n mod 10"
      using small by (simp add: unat_word_ariths m)
    have d: "unat (n div 10) = unat n div 10"
      by (simp add: unat_div)
    from "1.prems" ds have "unat (r + ucast (n mod 10)) + digit_sum (unat (n div 10)) < 65536"
      by (simp add: r' d)
    from "1.IH" [OF True this] True show ?thesis
      by (simp add: r' d ds)
  qed
qed

text \<open>
  C7: whatever the elapsed-time counter reads, the random selector called with the
  vertex count 8 returns the sum of the counter's decimal digits modulo 8, hence an
  index from 0 to 7.
\<close>

theorem MD_Random_digit_sum:
  "unat (MD_Random now (of_nat MAX_VERTICES)) = digit_sum (unat now) mod 8 \<and>
   unat (MD_Random now (of_nat MAX_VERTICES)) < MAX_VERTICES"
proof -
  have eight: "(of_nat MAX_VERTICES :: 16 word) = 8" "MAX_VERTICES = 8"
    by (simp_all add: MAX_VERTICES_def vertex_def)
  have "unat (0 :: 16 word) + digit_sum (unat now) < 65536"
    using digit_sum_u32 [of now] by simp
  then have "unat (MD_Random_loop now 0) = digit_sum (unat now)"
    using MD_Random_loop_sum [of 0 now] by simp
  then have "unat (MD_Random now 8) = digit_sum (unat now) mod 8"
    by (simp add: MD_Random_def unat_mod)
  then show ?thesis
    by (simp add: eight)
qed

section \<open>The fixed path: the cursor at the end of the table\<close>

text \<open>
  The engine never touches the selector's variables, so the selection steps can be
  followed on their own, whatever sessions run between them.
\<close>

lemma traverse_keeps_selector:
  "i (snd (traverse a b d t s)) = i s \<and> v1 (snd (traverse a b d t s)) = v1 s \<and>
   v2 (snd (traverse a b d t s)) = v2 s \<and> lstate (snd (traverse a b d t s)) = lstate s"
  by (cases "state s") (simp_all add: traverse_def)

text \<open>
  C5: in fixed-path mode the cursor is meant to be back at 0 after
  \<open>2 * MAX_PATH_SIZE\<close> invocations of the selection step, with the first path entry
  selected again and the coordinate re-anchored. Evaluated from start-up, the code
  does otherwise: on the 30th invocation the cursor step leaves the cursor at 30 and
  the coordinate untouched, and the nibble read that follows is outside the table.
\<close>

theorem cursor_after_30_invocations:
  "2 * MAX_PATH_SIZE = 30 \<and>
   (case select_times 29 setup_lamp of
      Inl e \<Rightarrow> False
    | Inr s \<Rightarrow>
        i s = 29 \<and>
        (case advance_cursor s of
           Inl e \<Rightarrow> False
         | Inr s' \<Rightarrow> i s' = 30 \<and> i s' \<noteq> 0 \<and> v s' = v s \<and>
                     read_nibble s' = Inl (PathOutOfBounds MAX_PATH_SIZE)))"
  by code_simp

text \<open>
  C6: in fixed-path mode every invocation of the selection step is meant to read the
  path table inside its 15 entries. Evaluated from start-up, 29 invocations do, and
  the 30th reads \<open>path[15]\<close>.
\<close>

theorem path_read_past_end:
  "MAX_PATH_SIZE = 15 \<and>
   (case select_times 29 setup_lamp of Inl e \<Rightarrow> False | Inr s \<Rightarrow> i s = 29 \<and> v2 s = 0) \<and>
   select_times 30 setup_lamp = Inl (PathOutOfBounds 15)"
  by code_simp

end
